theory Spec2Isabelle
  imports Main "HOL-Library.Word" "HOL-Library.Sublist"
begin

section \<open>Read-only archives: the facade, the hint matcher and the tar index\<close>

text \<open>
  A shallow embedding of \<^verbatim>\<open>roarchive/roarchive.cpp\<close> and \<^verbatim>\<open>roarchive/tarball.cpp\<close>.
  Exceptions are values of type \<open>error\<close> on the left of a sum, \<^verbatim>\<open>std::size_t\<close> offsets
  are 64-bit words, \<^verbatim>\<open>std::map\<close> is a partial function, and the loops are recursive
  functions over the member list or the candidate index.
\<close>

subsection \<open>Paths, errors and the external collaborators\<close>

text \<open>
  \<^verbatim>\<open>boost::filesystem::path\<close> wraps a string; \<^verbatim>\<open>path.string()\<close> and the constructor from
  a string are the identity.
\<close>

type_synonym path = string

text \<open>
  The exceptions the two files raise: \<^verbatim>\<open>LOGTHROW(err2, std::runtime_error)\<close> in
  \<^verbatim>\<open>tarball.cpp\<close>, \<^verbatim>\<open>LOGTHROW(err2, NotAnArchive)\<close> in \<^verbatim>\<open>roarchive.cpp\<close>, and the
  \<^verbatim>\<open>std::ios_base::failure\<close> of a stream whose exception mask holds \<^verbatim>\<open>failbit | badbit\<close>.
  Each carries the logged message.
\<close>

datatype error = RuntimeError string | NotAnArchive string | IOError

text \<open>
  Both throw sites of \<^verbatim>\<open>tarball.cpp\<close> (a missing hint anchor, a missing member) raise
  \<^verbatim>\<open>std::runtime_error\<close>; this is the failure the specification calls \<open>NotFound\<close>.
\<close>

fun isNotFound :: "error \<Rightarrow> bool" where
  "isNotFound (RuntimeError msg) = True"
| "isNotFound (NotAnArchive msg) = False"
| "isNotFound IOError = False"

text \<open>
  The path operations the code calls live outside the two files: \<^verbatim>\<open>filename()\<close>,
  \<^verbatim>\<open>parent_path()\<close> and the stream output \<^verbatim>\<open><<\<close> of Boost.Filesystem, and
  \<^verbatim>\<open>utility::isPathPrefix\<close>, \<^verbatim>\<open>utility::cutPathPrefix\<close>. They are parameters of the model:
  every function below that calls one takes a \<open>path_ops\<close>, and the general theorems
  hold for all of them. The comparison \<^verbatim>\<open>path.filename() == string\<close> is equality of the
  filename's string.
\<close>

record path_ops =
  filename :: "path \<Rightarrow> string"
  parent_path :: "path \<Rightarrow> path"
  isPathPrefix :: "path \<Rightarrow> path \<Rightarrow> bool"
  cutPathPrefix :: "path \<Rightarrow> path \<Rightarrow> path"
  path_out :: "path \<Rightarrow> string"

text \<open>
  Modelled from the spec: the path helpers of Boost.Filesystem and of the utility
  library are missing from the sources; \<open>simple_path_ops\<close> is an instance for relative
  paths of \<open>/\<close>-separated components (the filename is the last component, the parent the
  components before it, a prefix is a prefix of the component list, and stripping drops
  that many components), on which the specification's examples are run.
\<close>

fun split_sep :: "char \<Rightarrow> string \<Rightarrow> string list" where
  "split_sep c [] = [[]]"
| "split_sep c (x # xs) =
     (if x = c then [] # split_sep c xs
      else (case split_sep c xs of
              [] \<Rightarrow> [[x]]
            | y # ys \<Rightarrow> (x # y) # ys))"

definition path_elems :: "path \<Rightarrow> string list" where
  "path_elems p = (if p = [] then [] else split_sep (CHR ''/'') p)"

fun path_join :: "string list \<Rightarrow> path" where
  "path_join [] = []"
| "path_join [e] = e"
| "path_join (e # es) = e @ CHR ''/'' # path_join es"

definition quoted :: "string \<Rightarrow> string" where
  "quoted s =
     CHR 0x22 #
     concat (map (\<lambda>c. if c = CHR 0x22 \<or> c = CHR ''&'' then [CHR ''&'', c] else [c]) s) @
     [CHR 0x22]"

definition simple_path_ops :: path_ops where
  "simple_path_ops =
     \<lparr> filename = (\<lambda>p. case path_elems p of [] \<Rightarrow> [] | e # es \<Rightarrow> last (e # es)),
       parent_path = (\<lambda>p. path_join (butlast (path_elems p))),
       isPathPrefix = (\<lambda>p pfx.
          take (length (path_elems pfx)) (path_elems p) = path_elems pfx),
       cutPathPrefix = (\<lambda>p pfx.
          path_join (drop (length (path_elems pfx)) (path_elems p))),
       path_out = quoted \<rparr>"

subsection \<open>\<^verbatim>\<open>tarball.cpp\<close>: byte ranges, the member stream, the index\<close>

text \<open>
  \<^verbatim>\<open>utility::io::SubStreamDevice::Filedes\<close>: the shared descriptor and the byte range
  \<open>[start, end)\<close> of one member.
\<close>

record Filedes =
  fd :: int
  fd_start :: "64 word"
  fd_end :: "64 word"

text \<open>\<^verbatim>\<open>utility::tar::Reader::File\<close>, with \<open>tf_end\<close> the value of \<^verbatim>\<open>file.end()\<close>.\<close>

record tar_file =
  tf_path :: path
  tf_start :: "64 word"
  tf_end :: "64 word"

text \<open>
  What the constructor of \<open>TarIndex\<close> reads from \<^verbatim>\<open>utility::tar::Reader\<close>:
  \<^verbatim>\<open>reader.path()\<close>, \<^verbatim>\<open>reader.files()\<close> and \<^verbatim>\<open>reader.filedes()\<close>.
\<close>

record Reader =
  reader_path :: path
  reader_files :: "tar_file list"
  reader_filedes :: int

text \<open>
  \<^verbatim>\<open>TarIStream\<close> (lines 43-68): the member's name, \<^verbatim>\<open>size_(fd.end - fd.start)\<close> in
  \<^verbatim>\<open>std::size_t\<close>, the descriptor handed to the sub-stream device, and the length
  \<^verbatim>\<open>1 << 16\<close> of the character buffer given to \<^verbatim>\<open>pubsetbuf\<close>.
\<close>

record TarIStream_state =
  tis_path :: path
  tis_size :: "64 word"
  tis_filedes :: Filedes
  tis_buf_len :: int

definition TarIStream :: "path \<Rightarrow> Filedes \<Rightarrow> TarIStream_state" where
  "TarIStream p d =
     \<lparr> tis_path = p,
       tis_size = fd_end d - fd_start d,
       tis_filedes = d,
       tis_buf_len = push_bit 16 1 \<rparr>"

text \<open>\<^verbatim>\<open>TarIStream::size()\<close> returns the stored size as a present optional.\<close>

definition TarIStream_size :: "TarIStream_state \<Rightarrow> 64 word option" where
  "TarIStream_size s = Some (tis_size s)"

text \<open>
  \<^verbatim>\<open>findPrefix\<close> (lines 70-84): the parent directory of the first member whose filename
  equals the hint; a \<^verbatim>\<open>std::runtime_error\<close> when the loop finds none.
\<close>

definition no_hint_msg :: "path_ops \<Rightarrow> path \<Rightarrow> string \<Rightarrow> string" where
  "no_hint_msg po p h =
     ''No '' @ [CHR 0x22] @ h @ [CHR 0x22] @ '' found in the tarball archive at '' @
     path_out po p @ ''.''"

fun findPrefix :: "path_ops \<Rightarrow> path \<Rightarrow> string \<Rightarrow> tar_file list \<Rightarrow> error + path" where
  "findPrefix po p h [] = Inl (RuntimeError (no_hint_msg po p h))"
| "findPrefix po p h (file # files) =
     (if filename po (tf_path file) = h then Inr (parent_path po (tf_path file))
      else findPrefix po p h files)"

text \<open>
  \<^verbatim>\<open>std::map::insert\<close> leaves the map unchanged when the key is already present.
\<close>

definition map_insert :: "('k \<rightharpoonup> 'v) \<Rightarrow> 'k \<Rightarrow> 'v \<Rightarrow> ('k \<rightharpoonup> 'v)" where
  "map_insert m k v = (case m k of None \<Rightarrow> m(k \<mapsto> v) | Some old \<Rightarrow> m)"

text \<open>The loop of the constructor (lines 98-105), over the remaining members.\<close>

fun index_loop ::
  "path_ops \<Rightarrow> int \<Rightarrow> path \<Rightarrow> tar_file list \<Rightarrow> (string \<rightharpoonup> Filedes) \<Rightarrow> (string \<rightharpoonup> Filedes)"
where
  "index_loop po d pfx [] index = index"
| "index_loop po d pfx (file # files) index =
     (if \<not> isPathPrefix po (tf_path file) pfx then index_loop po d pfx files index
      else
        let p = cutPathPrefix po (tf_path file) pfx
        in index_loop po d pfx files
             (map_insert index p \<lparr> fd = d, fd_start = tf_start file, fd_end = tf_end file \<rparr>))"

text \<open>
  Line 95: \<^verbatim>\<open>hint ? findPrefix(path_, *hint, files) : fs::path()\<close>.
\<close>

definition tar_prefix ::
  "path_ops \<Rightarrow> path \<Rightarrow> string option \<Rightarrow> tar_file list \<Rightarrow> error + path" where
  "tar_prefix po p hint files =
     (case hint of Some h \<Rightarrow> findPrefix po p h files | None \<Rightarrow> Inr [])"

text \<open>The members \<^verbatim>\<open>path_\<close> and \<^verbatim>\<open>index_\<close> of \<^verbatim>\<open>TarIndex\<close>.\<close>

record TarIndex_state =
  ti_path :: path
  ti_index :: "string \<rightharpoonup> Filedes"

definition TarIndex :: "path_ops \<Rightarrow> Reader \<Rightarrow> string option \<Rightarrow> error + TarIndex_state" where
  "TarIndex po reader hint =
     (let files = reader_files reader
      in case tar_prefix po (reader_path reader) hint files of
           Inl e \<Rightarrow> Inl e
         | Inr pfx \<Rightarrow>
             Inr \<lparr> ti_path = reader_path reader,
                   ti_index = index_loop po (reader_filedes reader) pfx files Map.empty \<rparr>)"

text \<open>\<^verbatim>\<open>TarIndex::file\<close> (lines 108-116).\<close>

definition no_file_msg :: "path_ops \<Rightarrow> path \<Rightarrow> string \<Rightarrow> string" where
  "no_file_msg po archive p =
     ''File '' @ [CHR 0x22] @ p @ [CHR 0x22] @ '' not found in the archive at '' @
     path_out po archive @ ''.''"

definition TarIndex_file :: "path_ops \<Rightarrow> TarIndex_state \<Rightarrow> string \<Rightarrow> error + Filedes" where
  "TarIndex_file po ti p =
     (case ti_index ti p of
        None \<Rightarrow> Inl (RuntimeError (no_file_msg po (ti_path ti) p))
      | Some d \<Rightarrow> Inr d)"

text \<open>
  \<^verbatim>\<open>Tarball\<close> (lines 124-142) and \<^verbatim>\<open>RoArchive::tarball\<close>: the backend holds the reader
  and the index built from it; its construction fails when the index's does.
\<close>

record Tarball_state =
  tb_reader :: Reader
  tb_index :: TarIndex_state

definition Tarball :: "path_ops \<Rightarrow> Reader \<Rightarrow> string option \<Rightarrow> error + Tarball_state" where
  "Tarball po reader hint =
     (case TarIndex po reader hint of
        Inl e \<Rightarrow> Inl e
      | Inr ti \<Rightarrow> Inr \<lparr> tb_reader = reader, tb_index = ti \<rparr>)"

definition Tarball_istream ::
  "path_ops \<Rightarrow> Tarball_state \<Rightarrow> path \<Rightarrow> error + TarIStream_state" where
  "Tarball_istream po tb p =
     (case TarIndex_file po (tb_index tb) p of
        Inl e \<Rightarrow> Inl e
      | Inr d \<Rightarrow> Inr (TarIStream p d))"

subsection \<open>\<^verbatim>\<open>roarchive.cpp\<close>: opening an archive\<close>

text \<open>
  \<^verbatim>\<open>OpenOptions\<close>. A \<^verbatim>\<open>FileHint\<close> is its ordered list of candidate names; assigning a
  string to it (line 57) gives the hint of that one candidate. \<^verbatim>\<open>inlineHint\<close> is a
  character, with \<^verbatim>\<open>'\0'\<close> for none.
\<close>

record OpenOptions =
  hint :: "string list"
  mime :: string
  inlineHint :: char
  fileLimit :: nat

text \<open>
  What \<^verbatim>\<open>factory\<close> asks of its surroundings: the scheme of \<^verbatim>\<open>utility::Uri(path)\<close>
  (\<open>None\<close> when the constructor throws, which the code catches), the type that
  \<^verbatim>\<open>utility::Magic().mime(path)\<close> detects (it may throw), and whether
  \<^verbatim>\<open>ROARCHIVE_HAS_HTTP\<close> is defined.
\<close>

record factory_env =
  uri_scheme :: "string \<Rightarrow> string option"
  magic_mime :: "path \<Rightarrow> error + string"
  has_http :: bool

text \<open>
  The backend constructor that \<^verbatim>\<open>factory\<close> calls, with the arguments it passes.
\<close>

datatype backend =
  Directory path OpenOptions
| TarballBackend path OpenOptions
| Zip path OpenOptions
| Http path OpenOptions

fun backend_path :: "backend \<Rightarrow> path" where
  "backend_path (Directory p oo) = p"
| "backend_path (TarballBackend p oo) = p"
| "backend_path (Zip p oo) = p"
| "backend_path (Http p oo) = p"

fun backend_options :: "backend \<Rightarrow> OpenOptions" where
  "backend_options (Directory p oo) = oo"
| "backend_options (TarballBackend p oo) = oo"
| "backend_options (Zip p oo) = oo"
| "backend_options (Http p oo) = oo"

text \<open>
  \<^verbatim>\<open>std::string::find(char)\<close>: the index of the first occurrence, \<open>None\<close> for
  \<^verbatim>\<open>npos\<close>.
\<close>

fun str_find :: "string \<Rightarrow> char \<Rightarrow> nat option" where
  "str_find [] c = None"
| "str_find (x # xs) c = (if x = c then Some 0 else map_option Suc (str_find xs c))"

text \<open>
  Lines 50-59 of \<^verbatim>\<open>factory\<close>: the inline hint. \<^verbatim>\<open>str.substr(0, split)\<close> is
  \<open>take split str\<close> and \<^verbatim>\<open>str.substr(split + 1)\<close> is \<open>drop (split + 1) str\<close>.
\<close>

definition inline_hint_split :: "path \<Rightarrow> OpenOptions \<Rightarrow> path \<times> OpenOptions" where
  "inline_hint_split p openOptions =
     (if inlineHint openOptions \<noteq> CHR 0x00 then
        (case str_find p (inlineHint openOptions) of
           Some split \<Rightarrow> (take split p, openOptions\<lparr>hint := [drop (split + 1) p]\<rparr>)
         | None \<Rightarrow> (p, openOptions))
      else (p, openOptions))"

text \<open>Lines 61-69: a URL gets the type \<open>http\<close> when none was given.\<close>

definition url_mime :: "factory_env \<Rightarrow> path \<Rightarrow> OpenOptions \<Rightarrow> OpenOptions" where
  "url_mime env p openOptions =
     (if mime openOptions = [] then
        (case uri_scheme env p of
           Some scheme \<Rightarrow>
             if scheme = ''http'' \<or> scheme = ''https'' then openOptions\<lparr>mime := ''http''\<rparr>
             else openOptions
         | None \<Rightarrow> openOptions)
      else openOptions)"

text \<open>Lines 72-74: the type token \<^verbatim>\<open>magic\<close>.\<close>

definition detect_magic :: "factory_env \<Rightarrow> path \<Rightarrow> OpenOptions \<Rightarrow> error + string" where
  "detect_magic env p openOptions =
     (if mime openOptions = [] then magic_mime env p else Inr (mime openOptions))"

text \<open>Lines 76-86: the dispatch on \<^verbatim>\<open>magic\<close>.\<close>

definition dispatch :: "factory_env \<Rightarrow> string \<Rightarrow> path \<Rightarrow> OpenOptions \<Rightarrow> error + backend" where
  "dispatch env magic p openOptions =
     (if magic = ''inode/directory'' then Inr (Directory p openOptions)
      else if magic = ''application/x-tar'' then Inr (TarballBackend p openOptions)
      else if magic = ''application/zip'' then Inr (Zip p openOptions)
      else if has_http env \<and> magic = ''http'' then Inr (Http p openOptions)
      else Inl (NotAnArchive (''Unsupported archive type <'' @ magic @ ''>.'')))"

text \<open>\<^verbatim>\<open>RoArchive::factory\<close> (lines 47-86).\<close>

definition factory :: "factory_env \<Rightarrow> path \<Rightarrow> OpenOptions \<Rightarrow> error + backend" where
  "factory env p openOptions =
     (let (p1, oo1) = inline_hint_split p openOptions;
          oo2 = url_mime env p1 oo1
      in (case detect_magic env p1 oo2 of
            Inl e \<Rightarrow> Inl e
          | Inr magic \<Rightarrow> dispatch env magic p1 oo2))"

subsection \<open>\<^verbatim>\<open>roarchive.cpp\<close>: reading a whole member\<close>

text \<open>
  An \<^verbatim>\<open>IStream\<close>: the bytes of the source behind \<^verbatim>\<open>get()\<close> and the read position in
  them, with the members \<^verbatim>\<open>size_\<close> (\<open>known_size\<close>) and \<^verbatim>\<open>seekable_\<close>. The stream throws on
  \<^verbatim>\<open>failbit\<close>, so a read that comes up short is \<open>IOError\<close>.
\<close>

record IStream =
  src :: string
  pos :: nat
  known_size :: "nat option"
  seekable :: bool

text \<open>
  \<^verbatim>\<open>utility::binaryio::read(s, buf, n)\<close>: exactly \<open>n\<close> bytes from the read position.
\<close>

definition binaryio_read :: "IStream \<Rightarrow> nat \<Rightarrow> error + (string \<times> IStream)" where
  "binaryio_read s n =
     (if pos s + n \<le> length (src s)
      then Inr (take n (drop (pos s) (src s)), s\<lparr>pos := pos s + n\<rparr>)
      else Inl IOError)"

text \<open>\<^verbatim>\<open>s.seekg(0, std::ios_base::end)\<close>, \<^verbatim>\<open>s.tellg()\<close> and \<^verbatim>\<open>s.seekg(0)\<close>.\<close>

definition seekg_end :: "IStream \<Rightarrow> IStream" where
  "seekg_end s = s\<lparr>pos := length (src s)\<rparr>"

definition tellg :: "IStream \<Rightarrow> nat" where
  "tellg s = pos s"

definition seekg :: "IStream \<Rightarrow> nat \<Rightarrow> IStream" where
  "seekg s n = s\<lparr>pos := n\<rparr>"

text \<open>
  \<^verbatim>\<open>boost::iostreams::copy(s, os)\<close>: everything from the read position to the end.
\<close>

definition bio_copy :: "IStream \<Rightarrow> string \<times> IStream" where
  "bio_copy s = (drop (pos s) (src s), s\<lparr>pos := length (src s)\<rparr>)"

text \<open>\<^verbatim>\<open>IStream::read\<close> (lines 156-179).\<close>

definition IStream_read :: "IStream \<Rightarrow> error + (string \<times> IStream)" where
  "IStream_read s =
     (case known_size s of
        Some n \<Rightarrow> binaryio_read s n
      | None \<Rightarrow>
          if seekable s then
            let s1 = seekg_end s;
                n = tellg s1;
                s2 = seekg s1 0
            in binaryio_read s2 n
          else Inr (bio_copy s))"

subsection \<open>\<^verbatim>\<open>roarchive.cpp\<close>: the hint matcher\<close>

text \<open>
  The members \<^verbatim>\<open>hint_\<close>, \<^verbatim>\<open>bestIndex_\<close> and \<^verbatim>\<open>bestMatch_\<close> of
  \<^verbatim>\<open>FileHint::Matcher\<close>.
\<close>

record Matcher_state =
  m_hint :: "string list"
  bestIndex :: nat
  bestMatch :: path

text \<open>
  Modelled from the spec: the constructor of the matcher is declared in a header that
  is missing; \<open>bestIndex\<close> starts at the length of the candidate list, meaning that
  nothing has matched yet, and \<open>bestMatch\<close> starts empty.
\<close>

definition Matcher :: "string list \<Rightarrow> Matcher_state" where
  "Matcher h = \<lparr> m_hint = h, bestIndex = length h, bestMatch = [] \<rparr>"

text \<open>
  The loop of \<^verbatim>\<open>operator()\<close> (lines 230-236) from \<open>index\<close> on. It reads
  \<^verbatim>\<open>hint_[index]\<close> only for \<open>index < bestIndex\<close>, which never exceeds the length of the
  candidate list (lemma \<open>Matcher_feed_bound\<close>).
\<close>

function Matcher_loop :: "string \<Rightarrow> path \<Rightarrow> nat \<Rightarrow> Matcher_state \<Rightarrow> Matcher_state" where
  "Matcher_loop fname p index m =
     (if index < bestIndex m then
        (if fname = m_hint m ! index then m\<lparr>bestIndex := index, bestMatch := p\<rparr>
         else Matcher_loop fname p (index + 1) m)
      else m)"
  by pat_completeness auto
termination
  by (relation "measure (\<lambda>(fname, p, index, m). bestIndex m - index)") auto

declare Matcher_loop.simps [simp del]

text \<open>
  \<^verbatim>\<open>FileHint::Matcher::operator()\<close> (lines 226-240): the returned flag and the new
  state.
\<close>

definition Matcher_call :: "path_ops \<Rightarrow> Matcher_state \<Rightarrow> path \<Rightarrow> bool \<times> Matcher_state" where
  "Matcher_call po m p =
     (let fname = filename po p;
          m' = Matcher_loop fname p 0 m
      in (bestIndex m' = 0, m'))"

text \<open>Feeding a sequence of observed paths to one matcher, one call each.\<close>

fun Matcher_feed :: "path_ops \<Rightarrow> Matcher_state \<Rightarrow> path list \<Rightarrow> Matcher_state" where
  "Matcher_feed po m [] = m"
| "Matcher_feed po m (p # ps) = Matcher_feed po (snd (Matcher_call po m p)) ps"

text \<open>The invariant of a matcher that has seen the paths \<open>seen\<close>.\<close>

definition Matcher_inv :: "path_ops \<Rightarrow> path set \<Rightarrow> Matcher_state \<Rightarrow> bool" where
  "Matcher_inv po seen m \<longleftrightarrow>
     bestIndex m \<le> length (m_hint m) \<and>
     (bestIndex m < length (m_hint m) \<longrightarrow>
        bestMatch m \<in> seen \<and> filename po (bestMatch m) = m_hint m ! bestIndex m)"

section \<open>Properties\<close>

subsection \<open>The tar index\<close>


lemma findPrefix_none:
  "\<forall>f\<in>set files. filename po (tf_path f) \<noteq> h \<Longrightarrow>
   findPrefix po p h files = Inl (RuntimeError (no_hint_msg po p h))"
  by (induction files) auto

lemma findPrefix_first:
  "findPrefix po p h files = Inr pre \<Longrightarrow>
   \<exists>xs a ys. files = xs @ a # ys \<and> filename po (tf_path a) = h \<and>
     (\<forall>x\<in>set xs. filename po (tf_path x) \<noteq> h) \<and> pre = parent_path po (tf_path a)"
proof (induction files)
  case Nil
  then show ?case by simp
next
  case (Cons f fs)
  show ?case
  proof (cases "filename po (tf_path f) = h")
    case True
    with Cons.prems have "pre = parent_path po (tf_path f)" by simp
    with True have "f # fs = [] @ f # fs \<and> filename po (tf_path f) = h \<and>
      (\<forall>x\<in>set []. filename po (tf_path x) \<noteq> h) \<and> pre = parent_path po (tf_path f)"
      by simp
    then show ?thesis by blast
  next
    case False
    with Cons.prems have "findPrefix po p h fs = Inr pre" by simp
    from Cons.IH [OF this] obtain xs a ys where
      "fs = xs @ a # ys" "filename po (tf_path a) = h"
      "\<forall>x\<in>set xs. filename po (tf_path x) \<noteq> h" "pre = parent_path po (tf_path a)"
      by blast
    with False have "f # fs = (f # xs) @ a # ys \<and> filename po (tf_path a) = h \<and>
      (\<forall>x\<in>set (f # xs). filename po (tf_path x) \<noteq> h) \<and> pre = parent_path po (tf_path a)"
      by simp
    then show ?thesis by blast
  qed
qed

lemma index_loop_lookup:
  "index_loop po d pre files index k =
     (case index k of
        Some v \<Rightarrow> Some v
      | None \<Rightarrow>
          (case find (\<lambda>f. isPathPrefix po (tf_path f) pre \<and> cutPathPrefix po (tf_path f) pre = k) files of
             None \<Rightarrow> None
           | Some f \<Rightarrow> Some \<lparr> fd = d, fd_start = tf_start f, fd_end = tf_end f \<rparr>))"
  by (induction files arbitrary: index)
     (auto simp: map_insert_def Let_def split: option.splits)

lemma find_first:
  "(\<forall>x\<in>set xs. \<not> P x) \<Longrightarrow> P f \<Longrightarrow> find P (xs @ f # ys) = Some f"
  by (induction xs) auto

lemma find_dom:
  "(find P xs \<noteq> None) = (\<exists>x\<in>set xs. P x)"
  by (induction xs) auto

lemma find_some_mem:
  "find P xs = Some x \<Longrightarrow> x \<in> set xs \<and> P x"
  by (induction xs) (auto split: if_splits)

lemma TarIndex_Inr:
  "tar_prefix po (reader_path reader) hnt (reader_files reader) = Inr pre \<Longrightarrow>
   TarIndex po reader hnt =
     Inr \<lparr> ti_path = reader_path reader,
           ti_index = index_loop po (reader_filedes reader) pre (reader_files reader) Map.empty \<rparr>"
  by (simp add: TarIndex_def)

lemma TarIndex_Inl:
  "tar_prefix po (reader_path reader) hnt (reader_files reader) = Inl e \<Longrightarrow>
   TarIndex po reader hnt = Inl e"
  by (simp add: TarIndex_def)

lemma index_loop_empty:
  "index_loop po d pre files Map.empty k =
     (case find (\<lambda>f. isPathPrefix po (tf_path f) pre \<and> cutPathPrefix po (tf_path f) pre = k) files of
        None \<Rightarrow> None
      | Some f \<Rightarrow> Some \<lparr> fd = d, fd_start = tf_start f, fd_end = tf_end f \<rparr>)"
  by (simp add: index_loop_lookup)

lemma index_loop_dom:
  "dom (index_loop po d pre files Map.empty) =
     set (map (\<lambda>f. cutPathPrefix po (tf_path f) pre)
            (filter (\<lambda>f. isPathPrefix po (tf_path f) pre) files))"
proof (rule set_eqI)
  fix k
  let ?P = "\<lambda>f. isPathPrefix po (tf_path f) pre \<and> cutPathPrefix po (tf_path f) pre = k"
  have "k \<in> dom (index_loop po d pre files Map.empty) \<longleftrightarrow> find ?P files \<noteq> None"
    by (simp add: dom_def index_loop_empty split: option.splits)
  also have "\<dots> \<longleftrightarrow> (\<exists>f\<in>set files. ?P f)"
    by (rule find_dom)
  finally show "k \<in> dom (index_loop po d pre files Map.empty) \<longleftrightarrow>
      k \<in> set (map (\<lambda>f. cutPathPrefix po (tf_path f) pre)
                 (filter (\<lambda>f. isPathPrefix po (tf_path f) pre) files))"
    by auto
qed

lemma index_loop_entry:
  assumes "index_loop po d pre files Map.empty k = Some v"
  shows "\<exists>f\<in>set files. isPathPrefix po (tf_path f) pre \<and> cutPathPrefix po (tf_path f) pre = k \<and>
           v = \<lparr> fd = d, fd_start = tf_start f, fd_end = tf_end f \<rparr>"
proof -
  let ?P = "\<lambda>f. isPathPrefix po (tf_path f) pre \<and> cutPathPrefix po (tf_path f) pre = k"
  from assms obtain f where f: "find ?P files = Some f"
    and v: "v = \<lparr> fd = d, fd_start = tf_start f, fd_end = tf_end f \<rparr>"
    by (auto simp: index_loop_empty split: option.splits)
  from find_some_mem [OF f] v show ?thesis by blast
qed

lemma index_loop_first:
  assumes "files = xs @ f # ys"
    and "isPathPrefix po (tf_path f) pre"
    and "\<forall>x\<in>set xs. isPathPrefix po (tf_path x) pre \<longrightarrow>
           cutPathPrefix po (tf_path x) pre \<noteq> cutPathPrefix po (tf_path f) pre"
  shows "index_loop po d pre files Map.empty (cutPathPrefix po (tf_path f) pre) =
           Some \<lparr> fd = d, fd_start = tf_start f, fd_end = tf_end f \<rparr>"
proof -
  let ?k = "cutPathPrefix po (tf_path f) pre"
  let ?P = "\<lambda>g. isPathPrefix po (tf_path g) pre \<and> cutPathPrefix po (tf_path g) pre = ?k"
  have "\<forall>x\<in>set xs. \<not> ?P x" using assms(3) by blast
  moreover have "?P f" using assms(2) by simp
  ultimately have "find ?P (xs @ f # ys) = Some f" by (rule find_first)
  then show ?thesis by (simp add: index_loop_empty assms(1))
qed

lemma distinct_map_first:
  assumes "distinct (map g zs)" and "f \<in> set zs"
  shows "\<exists>xs ys. zs = xs @ f # ys \<and> (\<forall>x\<in>set xs. g x \<noteq> g f)"
proof -
  from assms(2) obtain xs ys where zs: "zs = xs @ f # ys"
    by (auto simp: in_set_conv_decomp)
  with assms(1) have "g f \<notin> g ` set xs" by auto
  then have "\<forall>x\<in>set xs. g x \<noteq> g f" by (metis imageI)
  with zs show ?thesis by blast
qed

text \<open>
  Claim C1. When the prefix resolves to \<open>pre\<close> (the parent directory of the first member
  whose filename is the hint, the empty path without a hint), the constructor succeeds
  and the keys of the index are exactly the stripped paths of the members under \<open>pre\<close>;
  every entry holds the shared descriptor with the start and the end of a member under
  \<open>pre\<close> that strips to its key, and where the stripped paths are pairwise distinct
  every member under \<open>pre\<close> is found under its stripped path with its own byte range.
  A member outside \<open>pre\<close> contributes no key and no entry.
\<close>

theorem tar_index_contents:
  assumes "tar_prefix po (reader_path reader) hnt (reader_files reader) = Inr pre"
  shows "\<exists>ti. TarIndex po reader hnt = Inr ti \<and>
     (case hnt of
        None \<Rightarrow> pre = []
      | Some h \<Rightarrow>
          (\<exists>xs a ys. reader_files reader = xs @ a # ys \<and> filename po (tf_path a) = h \<and>
             (\<forall>x\<in>set xs. filename po (tf_path x) \<noteq> h) \<and>
             pre = parent_path po (tf_path a))) \<and>
     dom (ti_index ti) =
       set (map (\<lambda>f. cutPathPrefix po (tf_path f) pre)
              (filter (\<lambda>f. isPathPrefix po (tf_path f) pre) (reader_files reader))) \<and>
     (\<forall>k d. ti_index ti k = Some d \<longrightarrow>
        (\<exists>f\<in>set (reader_files reader).
           isPathPrefix po (tf_path f) pre \<and> cutPathPrefix po (tf_path f) pre = k \<and>
           d = \<lparr> fd = reader_filedes reader, fd_start = tf_start f, fd_end = tf_end f \<rparr>)) \<and>
     (distinct (map (\<lambda>f. cutPathPrefix po (tf_path f) pre)
          (filter (\<lambda>f. isPathPrefix po (tf_path f) pre) (reader_files reader))) \<longrightarrow>
        (\<forall>f\<in>set (reader_files reader). isPathPrefix po (tf_path f) pre \<longrightarrow>
           ti_index ti (cutPathPrefix po (tf_path f) pre) =
             Some \<lparr> fd = reader_filedes reader, fd_start = tf_start f, fd_end = tf_end f \<rparr>))"
proof -
  let ?files = "reader_files reader"
  let ?d = "reader_filedes reader"
  let ?ix = "index_loop po ?d pre ?files Map.empty"
  let ?ti = "\<lparr> ti_path = reader_path reader, ti_index = ?ix \<rparr>"
  let ?under = "\<lambda>f. isPathPrefix po (tf_path f) pre"
  let ?cut = "\<lambda>f. cutPathPrefix po (tf_path f) pre"
  have built: "TarIndex po reader hnt = Inr ?ti"
    using assms by (rule TarIndex_Inr)
  have pfx: "case hnt of
        None \<Rightarrow> pre = []
      | Some h \<Rightarrow>
          (\<exists>xs a ys. ?files = xs @ a # ys \<and> filename po (tf_path a) = h \<and>
             (\<forall>x\<in>set xs. filename po (tf_path x) \<noteq> h) \<and>
             pre = parent_path po (tf_path a))"
  proof (cases hnt)
    case None
    with assms show ?thesis by (simp add: tar_prefix_def)
  next
    case (Some h)
    with assms have "findPrefix po (reader_path reader) h ?files = Inr pre"
      by (simp add: tar_prefix_def)
    from findPrefix_first [OF this] Some show ?thesis by simp
  qed
  have keys: "dom ?ix = set (map ?cut (filter ?under ?files))"
    by (rule index_loop_dom)
  have vals: "\<forall>k d. ?ix k = Some d \<longrightarrow>
        (\<exists>f\<in>set ?files. ?under f \<and> ?cut f = k \<and>
           d = \<lparr> fd = ?d, fd_start = tf_start f, fd_end = tf_end f \<rparr>)"
    using index_loop_entry by blast
  have own: "\<forall>f\<in>set ?files. ?under f \<longrightarrow>
           ?ix (?cut f) = Some \<lparr> fd = ?d, fd_start = tf_start f, fd_end = tf_end f \<rparr>"
    if dist: "distinct (map ?cut (filter ?under ?files))"
  proof (intro ballI impI)
    fix f assume f: "f \<in> set ?files" and u: "?under f"
    let ?P = "\<lambda>g. ?under g \<and> ?cut g = ?cut f"
    from f u have "\<exists>g\<in>set ?files. ?P g" by blast
    then have "find ?P ?files \<noteq> None" by (simp only: find_dom)
    then obtain g where g: "find ?P ?files = Some g" by blast
    from find_some_mem [OF g] have gm: "g \<in> set ?files" and gp: "?P g" by simp_all
    have "g = f"
    proof -
      from f u have "f \<in> set (filter ?under ?files)" by simp
      moreover from gm gp have "g \<in> set (filter ?under ?files)" by simp
      moreover from gp have "?cut g = ?cut f" by simp
      ultimately show ?thesis
        using dist by (meson distinct_map inj_onD)
    qed
    with g show "?ix (?cut f) = Some \<lparr> fd = ?d, fd_start = tf_start f, fd_end = tf_end f \<rparr>"
      by (simp add: index_loop_empty)
  qed
  from built pfx keys vals own show ?thesis by simp
qed

text \<open>
  The specification's example: members \<open>dir/a\<close> and \<open>dir/b\<close>, opened with the hint \<open>a\<close>
  and without a hint.
\<close>

theorem tar_index_contents_witness:
  "tar_prefix simple_path_ops ''x.tar'' (Some ''a'')
     [\<lparr> tf_path = ''dir/a'', tf_start = 512, tf_end = 522 \<rparr>,
      \<lparr> tf_path = ''dir/b'', tf_start = 1536, tf_end = 1540 \<rparr>] = Inr ''dir'' \<and>
   (\<exists>ti. TarIndex simple_path_ops
       \<lparr> reader_path = ''x.tar'',
         reader_files = [\<lparr> tf_path = ''dir/a'', tf_start = 512, tf_end = 522 \<rparr>,
                         \<lparr> tf_path = ''dir/b'', tf_start = 1536, tf_end = 1540 \<rparr>],
         reader_filedes = 3 \<rparr> (Some ''a'') = Inr ti \<and>
      dom (ti_index ti) = {''a'', ''b''} \<and>
      ti_index ti ''a'' = Some \<lparr> fd = 3, fd_start = 512, fd_end = 522 \<rparr> \<and>
      ti_index ti ''b'' = Some \<lparr> fd = 3, fd_start = 1536, fd_end = 1540 \<rparr>) \<and>
   (\<exists>ti. TarIndex simple_path_ops
       \<lparr> reader_path = ''x.tar'',
         reader_files = [\<lparr> tf_path = ''dir/a'', tf_start = 512, tf_end = 522 \<rparr>,
                         \<lparr> tf_path = ''dir/b'', tf_start = 1536, tf_end = 1540 \<rparr>],
         reader_filedes = 3 \<rparr> None = Inr ti \<and>
      dom (ti_index ti) = {''dir/a'', ''dir/b''})"
proof -
  let ?a = "\<lparr> tf_path = ''dir/a'', tf_start = 512, tf_end = 522 \<rparr>"
  let ?b = "\<lparr> tf_path = ''dir/b'', tf_start = 1536, tf_end = 1540 \<rparr>"
  let ?r = "\<lparr> reader_path = ''x.tar'', reader_files = [?a, ?b], reader_filedes = 3 \<rparr>"
  have h1: "tar_prefix simple_path_ops (reader_path ?r) (Some ''a'') (reader_files ?r) = Inr ''dir''"
    by (simp add: tar_prefix_def simple_path_ops_def path_elems_def)
  have h2: "tar_prefix simple_path_ops (reader_path ?r) None (reader_files ?r) = Inr []"
    by (simp add: tar_prefix_def)
  have e: "filename simple_path_ops ''dir/a'' = ''a''"
    "isPathPrefix simple_path_ops ''dir/a'' ''dir''" "isPathPrefix simple_path_ops ''dir/b'' ''dir''"
    "cutPathPrefix simple_path_ops ''dir/a'' ''dir'' = ''a''"
    "cutPathPrefix simple_path_ops ''dir/b'' ''dir'' = ''b''"
    "isPathPrefix simple_path_ops ''dir/a'' []" "isPathPrefix simple_path_ops ''dir/b'' []"
    "cutPathPrefix simple_path_ops ''dir/a'' [] = ''dir/a''"
    "cutPathPrefix simple_path_ops ''dir/b'' [] = ''dir/b''"
    by (simp_all add: simple_path_ops_def path_elems_def)
  from tar_index_contents [OF h1] obtain ti where
    t1: "TarIndex simple_path_ops ?r (Some ''a'') = Inr ti"
    and t2: "dom (ti_index ti) = set (map (\<lambda>f. cutPathPrefix simple_path_ops (tf_path f) ''dir'')
          (filter (\<lambda>f. isPathPrefix simple_path_ops (tf_path f) ''dir'') (reader_files ?r)))"
    and t3: "distinct (map (\<lambda>f. cutPathPrefix simple_path_ops (tf_path f) ''dir'')
          (filter (\<lambda>f. isPathPrefix simple_path_ops (tf_path f) ''dir'') (reader_files ?r))) \<longrightarrow>
        (\<forall>f\<in>set (reader_files ?r). isPathPrefix simple_path_ops (tf_path f) ''dir'' \<longrightarrow>
           ti_index ti (cutPathPrefix simple_path_ops (tf_path f) ''dir'') =
             Some \<lparr> fd = reader_filedes ?r, fd_start = tf_start f, fd_end = tf_end f \<rparr>)"
    by blast
  from t2 have d1: "dom (ti_index ti) = {''a'', ''b''}"
    by (simp add: e)
  from t3 have v1: "ti_index ti ''a'' = Some \<lparr> fd = 3, fd_start = 512, fd_end = 522 \<rparr>"
    and v2: "ti_index ti ''b'' = Some \<lparr> fd = 3, fd_start = 1536, fd_end = 1540 \<rparr>"
    by (simp_all add: e)
  from tar_index_contents [OF h2] obtain tj where
    u1: "TarIndex simple_path_ops ?r None = Inr tj"
    and u2: "dom (ti_index tj) = set (map (\<lambda>f. cutPathPrefix simple_path_ops (tf_path f) [])
          (filter (\<lambda>f. isPathPrefix simple_path_ops (tf_path f) []) (reader_files ?r)))"
    by blast
  from u2 have d2: "dom (ti_index tj) = {''dir/a'', ''dir/b''}"
    by (simp add: e)
  from h1 t1 d1 v1 v2 u1 d2 show ?thesis by simp
qed


text \<open>
  Claim C9. Let \<open>f\<close> be a member under the resolved prefix \<open>pre\<close> such that no member
  before it in the member list strips to the same relative path. Then the index maps
  that relative path to the byte range of \<open>f\<close>, and every later member that strips to
  the same path finds the range of \<open>f\<close> under its key, not its own: the insertion does
  not overwrite.
\<close>

theorem tar_index_first_wins:
  assumes "tar_prefix po (reader_path reader) hnt (reader_files reader) = Inr pre"
    and "reader_files reader = xs @ f # ys"
    and "isPathPrefix po (tf_path f) pre"
    and "\<forall>x\<in>set xs. isPathPrefix po (tf_path x) pre \<longrightarrow>
           cutPathPrefix po (tf_path x) pre \<noteq> cutPathPrefix po (tf_path f) pre"
  shows "\<exists>ti. TarIndex po reader hnt = Inr ti \<and>
     ti_index ti (cutPathPrefix po (tf_path f) pre) =
       Some \<lparr> fd = reader_filedes reader, fd_start = tf_start f, fd_end = tf_end f \<rparr> \<and>
     (\<forall>g\<in>set ys. isPathPrefix po (tf_path g) pre \<and>
          cutPathPrefix po (tf_path g) pre = cutPathPrefix po (tf_path f) pre \<longrightarrow>
        ti_index ti (cutPathPrefix po (tf_path g) pre) =
          Some \<lparr> fd = reader_filedes reader, fd_start = tf_start f, fd_end = tf_end f \<rparr>)"
proof -
  let ?ix = "index_loop po (reader_filedes reader) pre (reader_files reader) Map.empty"
  have built: "TarIndex po reader hnt = Inr \<lparr> ti_path = reader_path reader, ti_index = ?ix \<rparr>"
    using assms(1) by (rule TarIndex_Inr)
  have first: "?ix (cutPathPrefix po (tf_path f) pre) =
      Some \<lparr> fd = reader_filedes reader, fd_start = tf_start f, fd_end = tf_end f \<rparr>"
    using assms(2-4) by (rule index_loop_first)
  from built first show ?thesis by simp
qed

text \<open>
  Two members \<open>dir/a\<close>, opened with the hint \<open>a\<close>: the key \<open>a\<close> holds the range of the
  first.
\<close>

theorem tar_index_first_wins_witness:
  "\<exists>ti. TarIndex simple_path_ops
       \<lparr> reader_path = ''x.tar'',
         reader_files = [\<lparr> tf_path = ''top/n'', tf_start = 512, tf_end = 515 \<rparr>,
                         \<lparr> tf_path = ''dir/a'', tf_start = 1024, tf_end = 1034 \<rparr>,
                         \<lparr> tf_path = ''dir/a'', tf_start = 2048, tf_end = 2050 \<rparr>],
         reader_filedes = 3 \<rparr> (Some ''a'') = Inr ti \<and>
      ti_index ti ''a'' = Some \<lparr> fd = 3, fd_start = 1024, fd_end = 1034 \<rparr> \<and>
      ti_index ti ''a'' \<noteq> Some \<lparr> fd = 3, fd_start = 2048, fd_end = 2050 \<rparr>"
proof -
  let ?n = "\<lparr> tf_path = ''top/n'', tf_start = 512, tf_end = 515 \<rparr>"
  let ?a = "\<lparr> tf_path = ''dir/a'', tf_start = 1024, tf_end = 1034 \<rparr>"
  let ?b = "\<lparr> tf_path = ''dir/a'', tf_start = 2048, tf_end = 2050 \<rparr>"
  let ?r = "\<lparr> reader_path = ''x.tar'', reader_files = [?n, ?a, ?b], reader_filedes = 3 \<rparr>"
  have e: "filename simple_path_ops ''top/n'' = ''n''" "filename simple_path_ops ''dir/a'' = ''a''"
    "parent_path simple_path_ops ''dir/a'' = ''dir''"
    "isPathPrefix simple_path_ops ''dir/a'' ''dir''"
    "\<not> isPathPrefix simple_path_ops ''top/n'' ''dir''"
    "cutPathPrefix simple_path_ops ''dir/a'' ''dir'' = ''a''"
    by (simp_all add: simple_path_ops_def path_elems_def)
  have h1: "tar_prefix simple_path_ops (reader_path ?r) (Some ''a'') (reader_files ?r) = Inr ''dir''"
    by (simp add: tar_prefix_def e)
  have h2: "reader_files ?r = [?n] @ ?a # [?b]" by simp
  have h3: "isPathPrefix simple_path_ops (tf_path ?a) ''dir''" by (simp add: e)
  have h4: "\<forall>x\<in>set [?n]. isPathPrefix simple_path_ops (tf_path x) ''dir'' \<longrightarrow>
      cutPathPrefix simple_path_ops (tf_path x) ''dir'' \<noteq> cutPathPrefix simple_path_ops (tf_path ?a) ''dir''"
    by (simp add: e)
  from tar_index_first_wins [OF h1 h2 h3 h4] show ?thesis
    by (auto simp: e)
qed

text \<open>
  Claim C5. When no member's filename equals the hint anchor, \<^verbatim>\<open>findPrefix\<close> throws
  the \<^verbatim>\<open>std::runtime_error\<close> that reports the missing anchor, and the constructors of
  the index and of the backend fail with that same error.
\<close>

theorem missing_anchor_fails:
  assumes "\<forall>f\<in>set (reader_files reader). filename po (tf_path f) \<noteq> anchor"
  shows "\<exists>e. isNotFound e \<and>
     e = RuntimeError (no_hint_msg po (reader_path reader) anchor) \<and>
     findPrefix po (reader_path reader) anchor (reader_files reader) = Inl e \<and>
     TarIndex po reader (Some anchor) = Inl e \<and>
     Tarball po reader (Some anchor) = Inl e"
proof -
  let ?e = "RuntimeError (no_hint_msg po (reader_path reader) anchor)"
  have fp: "findPrefix po (reader_path reader) anchor (reader_files reader) = Inl ?e"
    using assms by (rule findPrefix_none)
  then have "tar_prefix po (reader_path reader) (Some anchor) (reader_files reader) = Inl ?e"
    by (simp add: tar_prefix_def)
  then have ti: "TarIndex po reader (Some anchor) = Inl ?e"
    by (rule TarIndex_Inl)
  then have "Tarball po reader (Some anchor) = Inl ?e"
    by (simp add: Tarball_def)
  with fp ti show ?thesis by simp
qed

text \<open>A tarball of \<open>dir/a\<close> and \<open>dir/b\<close>, opened with the anchor \<open>c\<close>.\<close>

theorem missing_anchor_fails_witness:
  "Tarball simple_path_ops
     \<lparr> reader_path = ''x.tar'',
       reader_files = [\<lparr> tf_path = ''dir/a'', tf_start = 512, tf_end = 522 \<rparr>,
                       \<lparr> tf_path = ''dir/b'', tf_start = 1536, tf_end = 1540 \<rparr>],
       reader_filedes = 3 \<rparr> (Some ''c'') =
     Inl (RuntimeError (''No '' @ [CHR 0x22] @ ''c'' @ [CHR 0x22] @
            '' found in the tarball archive at '' @ [CHR 0x22] @ ''x.tar'' @ [CHR 0x22] @ ''.''))"
proof -
  let ?a = "\<lparr> tf_path = ''dir/a'', tf_start = 512, tf_end = 522 \<rparr>"
  let ?b = "\<lparr> tf_path = ''dir/b'', tf_start = 1536, tf_end = 1540 \<rparr>"
  let ?r = "\<lparr> reader_path = ''x.tar'', reader_files = [?a, ?b], reader_filedes = 3 \<rparr>"
  have h: "\<forall>f\<in>set (reader_files ?r). filename simple_path_ops (tf_path f) \<noteq> ''c''"
    by (simp add: simple_path_ops_def path_elems_def)
  have m: "no_hint_msg simple_path_ops ''x.tar'' ''c'' =
      ''No '' @ [CHR 0x22] @ ''c'' @ [CHR 0x22] @
            '' found in the tarball archive at '' @ [CHR 0x22] @ ''x.tar'' @ [CHR 0x22] @ ''.''"
    by (simp add: no_hint_msg_def simple_path_ops_def quoted_def)
  from missing_anchor_fails [OF h] m show ?thesis by simp
qed

subsection \<open>Looking a member up and opening its stream\<close>

lemma sublist_mid: "sublist xs (ps @ xs @ ss)"
  unfolding sublist_def by blast

lemma no_file_msg_names:
  "sublist p (no_file_msg po archive p) \<and> sublist (path_out po archive) (no_file_msg po archive p)"
proof
  have "no_file_msg po archive p =
      (''File '' @ [CHR 0x22]) @ p @ ([CHR 0x22] @ '' not found in the archive at '' @
         path_out po archive @ ''.'')"
    by (simp add: no_file_msg_def)
  then show "sublist p (no_file_msg po archive p)"
    by (simp only: sublist_mid)
  have "no_file_msg po archive p =
      (''File '' @ [CHR 0x22] @ p @ [CHR 0x22] @ '' not found in the archive at '') @
         path_out po archive @ ''.''"
    by (simp add: no_file_msg_def)
  then show "sublist (path_out po archive) (no_file_msg po archive p)"
    by (simp only: sublist_mid)
qed

text \<open>
  Claim C6. On a built index, \<^verbatim>\<open>TarIndex::file\<close> returns the descriptor stored under
  the requested path exactly when that path is a key of the index; otherwise it throws
  the \<^verbatim>\<open>std::runtime_error\<close> whose message contains the requested path and the archive
  path as the stream prints it.
\<close>

theorem tar_index_lookup:
  assumes "TarIndex po reader hnt = Inr ti"
  shows "(\<forall>d. TarIndex_file po ti p = Inr d \<longleftrightarrow> ti_index ti p = Some d) \<and>
     ((\<exists>d. TarIndex_file po ti p = Inr d) \<longleftrightarrow> p \<in> dom (ti_index ti)) \<and>
     (p \<notin> dom (ti_index ti) \<longrightarrow>
        (\<exists>msg. TarIndex_file po ti p = Inl (RuntimeError msg) \<and>
           isNotFound (RuntimeError msg) \<and>
           msg = no_file_msg po (reader_path reader) p \<and>
           sublist p msg \<and> sublist (path_out po (reader_path reader)) msg))"
proof -
  from assms have arch: "ti_path ti = reader_path reader"
    by (auto simp: TarIndex_def Let_def split: sum.splits)
  have a: "\<forall>d. TarIndex_file po ti p = Inr d \<longleftrightarrow> ti_index ti p = Some d"
    by (simp add: TarIndex_file_def split: option.splits)
  have b: "(\<exists>d. TarIndex_file po ti p = Inr d) \<longleftrightarrow> p \<in> dom (ti_index ti)"
    by (simp add: TarIndex_file_def dom_def split: option.splits)
  have c: "TarIndex_file po ti p = Inl (RuntimeError (no_file_msg po (reader_path reader) p))"
    if "p \<notin> dom (ti_index ti)"
    using that arch by (simp add: TarIndex_file_def dom_def split: option.splits)
  from a b c no_file_msg_names [of p po "reader_path reader"] show ?thesis
    by simp
qed

text \<open>
  A tarball of \<open>dir/a\<close> opened with the hint \<open>a\<close>: the key \<open>a\<close> is found, the
  unstripped \<open>dir/a\<close> is not.
\<close>

theorem tar_index_lookup_witness:
  "(\<exists>ti. TarIndex simple_path_ops
       \<lparr> reader_path = ''x.tar'',
         reader_files = [\<lparr> tf_path = ''dir/a'', tf_start = 512, tf_end = 522 \<rparr>],
         reader_filedes = 3 \<rparr> (Some ''a'') = Inr ti \<and>
      TarIndex_file simple_path_ops ti ''a'' = Inr \<lparr> fd = 3, fd_start = 512, fd_end = 522 \<rparr> \<and>
      TarIndex_file simple_path_ops ti ''dir/a'' =
        Inl (RuntimeError (''File '' @ [CHR 0x22] @ ''dir/a'' @ [CHR 0x22] @
               '' not found in the archive at '' @ [CHR 0x22] @ ''x.tar'' @ [CHR 0x22] @ ''.'')))"
proof -
  let ?a = "\<lparr> tf_path = ''dir/a'', tf_start = 512, tf_end = 522 \<rparr>"
  let ?r = "\<lparr> reader_path = ''x.tar'', reader_files = [?a], reader_filedes = 3 \<rparr>"
  let ?ix = "Map.empty(''a'' \<mapsto> \<lparr> fd = 3, fd_start = 512, fd_end = 522 \<rparr>)"
  let ?ti = "\<lparr> ti_path = ''x.tar'', ti_index = ?ix \<rparr>"
  have e: "filename simple_path_ops ''dir/a'' = ''a''"
    "parent_path simple_path_ops ''dir/a'' = ''dir''"
    "isPathPrefix simple_path_ops ''dir/a'' ''dir''"
    "cutPathPrefix simple_path_ops ''dir/a'' ''dir'' = ''a''"
    by (simp_all add: simple_path_ops_def path_elems_def)
  have h: "TarIndex simple_path_ops ?r (Some ''a'') = Inr ?ti"
    by (simp add: TarIndex_def tar_prefix_def map_insert_def e)
  have m: "no_file_msg simple_path_ops ''x.tar'' ''dir/a'' =
      ''File '' @ [CHR 0x22] @ ''dir/a'' @ [CHR 0x22] @
               '' not found in the archive at '' @ [CHR 0x22] @ ''x.tar'' @ [CHR 0x22] @ ''.''"
    by (simp add: no_file_msg_def simple_path_ops_def quoted_def)
  have "TarIndex_file simple_path_ops ?ti ''a'' = Inr \<lparr> fd = 3, fd_start = 512, fd_end = 522 \<rparr>"
    using tar_index_lookup [OF h, of "''a''"] by simp
  moreover have "TarIndex_file simple_path_ops ?ti ''dir/a'' =
      Inl (RuntimeError (no_file_msg simple_path_ops ''x.tar'' ''dir/a''))"
    using tar_index_lookup [OF h, of "''dir/a''"] by simp
  ultimately show ?thesis using h m by simp
qed

text \<open>
  Claim C8. For a descriptor whose end lies beyond its start, the member stream reports
  the size \<open>end - start\<close>, with no wrap-around in \<^verbatim>\<open>std::size_t\<close>, and its buffer has
  \<open>64 * 1024\<close> characters.
\<close>

theorem tar_istream_size:
  assumes "fd_start d < fd_end d"
  shows "TarIStream_size (TarIStream p d) = Some (fd_end d - fd_start d) \<and>
     unat (tis_size (TarIStream p d)) = unat (fd_end d) - unat (fd_start d) \<and>
     0 < unat (tis_size (TarIStream p d)) \<and>
     tis_buf_len (TarIStream p d) = 64 * 1024"
proof -
  from assms have le: "fd_start d \<le> fd_end d" by simp
  have sz: "tis_size (TarIStream p d) = fd_end d - fd_start d"
    by (simp add: TarIStream_def)
  have u: "unat (fd_end d - fd_start d) = unat (fd_end d) - unat (fd_start d)"
    using le by (rule unat_sub)
  from assms have "unat (fd_start d) < unat (fd_end d)"
    by (simp add: word_less_nat_alt)
  with sz u show ?thesis
    by (simp add: TarIStream_size_def TarIStream_def)
qed

text \<open>The byte range from 512 to 522.\<close>

theorem tar_istream_size_witness:
  "(512 :: 64 word) < 522 \<and>
   TarIStream_size (TarIStream ''a'' \<lparr> fd = 3, fd_start = 512, fd_end = 522 \<rparr>) = Some 10 \<and>
   tis_buf_len (TarIStream ''a'' \<lparr> fd = 3, fd_start = 512, fd_end = 522 \<rparr>) = 65536"
proof -
  have h: "fd_start \<lparr> fd = 3, fd_start = 512, fd_end = 522 \<rparr> < fd_end \<lparr> fd = 3, fd_start = 512, fd_end = 522 \<rparr>"
    by simp
  from tar_istream_size [OF h, of "''a''"] h show ?thesis by simp
qed


subsection \<open>The hint matcher\<close>

lemma Matcher_loop_nomatch:
  "\<forall>j. index \<le> j \<and> j < bestIndex m \<longrightarrow> m_hint m ! j \<noteq> fname \<Longrightarrow>
   Matcher_loop fname p index m = m"
proof (induction fname p index m rule: Matcher_loop.induct)
  case (1 fname p index m)
  show ?case
  proof (cases "index < bestIndex m")
    case True
    with "1.prems" have ne: "fname \<noteq> m_hint m ! index" by auto
    from "1.prems" have "\<forall>j. index + 1 \<le> j \<and> j < bestIndex m \<longrightarrow> m_hint m ! j \<noteq> fname"
      by simp
    with "1.IH" True ne have "Matcher_loop fname p (index + 1) m = m" by blast
    with True ne show ?thesis by (simp add: Matcher_loop.simps [of fname p index m])
  next
    case False
    then show ?thesis by (simp add: Matcher_loop.simps [of fname p index m])
  qed
qed

lemma Matcher_loop_match:
  "index \<le> k \<Longrightarrow> k < bestIndex m \<Longrightarrow> m_hint m ! k = fname \<Longrightarrow>
   \<forall>j. index \<le> j \<and> j < k \<longrightarrow> m_hint m ! j \<noteq> fname \<Longrightarrow>
   Matcher_loop fname p index m = m\<lparr>bestIndex := k, bestMatch := p\<rparr>"
proof (induction fname p index m rule: Matcher_loop.induct)
  case (1 fname p index m)
  from "1.prems" have lt: "index < bestIndex m" by simp
  show ?case
  proof (cases "index = k")
    case True
    with "1.prems" lt show ?thesis by (subst Matcher_loop.simps) simp
  next
    case False
    with "1.prems" have ik: "index < k" by simp
    with "1.prems" have ne: "fname \<noteq> m_hint m ! index" by auto
    from ik have a: "index + 1 \<le> k" by simp
    from "1.prems" have b: "\<forall>j. index + 1 \<le> j \<and> j < k \<longrightarrow> m_hint m ! j \<noteq> fname" by simp
    from "1.IH" [OF lt ne a "1.prems"(2) "1.prems"(3) b]
    have "Matcher_loop fname p (index + 1) m = m\<lparr>bestIndex := k, bestMatch := p\<rparr>" .
    with lt ne show ?thesis by (simp add: Matcher_loop.simps [of fname p index m])
  qed
qed

text \<open>Either nothing below \<open>bestIndex\<close> matches, or there is a first match.\<close>

lemma first_match_cases:
  fixes P :: "nat \<Rightarrow> bool"
  shows "(\<forall>j<n. \<not> P j) \<or> (\<exists>k<n. P k \<and> (\<forall>j<k. \<not> P j))"
proof (cases "\<exists>k<n. P k")
  case True
  then obtain k0 where k0: "k0 < n" "P k0" by blast
  define k where "k = (LEAST i. P i)"
  from k0 have pk: "P k" unfolding k_def by (metis LeastI)
  from k0 have "k \<le> k0" unfolding k_def by (simp add: Least_le)
  with k0 have "k < n" by simp
  moreover have "\<forall>j<k. \<not> P j" unfolding k_def using not_less_Least by blast
  ultimately show ?thesis using pk by blast
next
  case False
  then show ?thesis by blast
qed

lemma Matcher_loop_cases:
  "Matcher_loop fname p 0 m = m \<and> (\<forall>j<bestIndex m. m_hint m ! j \<noteq> fname) \<or>
   (\<exists>k<bestIndex m. m_hint m ! k = fname \<and> (\<forall>j<k. m_hint m ! j \<noteq> fname) \<and>
      Matcher_loop fname p 0 m = m\<lparr>bestIndex := k, bestMatch := p\<rparr>)"
proof -
  from first_match_cases [of "bestIndex m" "\<lambda>j. m_hint m ! j = fname"]
  show ?thesis
  proof
    assume a: "\<forall>j<bestIndex m. m_hint m ! j \<noteq> fname"
    then have "Matcher_loop fname p 0 m = m" by (simp add: Matcher_loop_nomatch)
    with a show ?thesis by blast
  next
    assume "\<exists>k<bestIndex m. m_hint m ! k = fname \<and> (\<forall>j<k. m_hint m ! j \<noteq> fname)"
    then obtain k where k: "k < bestIndex m" "m_hint m ! k = fname" "\<forall>j<k. m_hint m ! j \<noteq> fname"
      by blast
    then have "Matcher_loop fname p 0 m = m\<lparr>bestIndex := k, bestMatch := p\<rparr>"
      by (simp add: Matcher_loop_match)
    with k show ?thesis by blast
  qed
qed

lemma Matcher_call_snd: "snd (Matcher_call po m p) = Matcher_loop (filename po p) p 0 m"
  by (simp add: Matcher_call_def Let_def)

lemma Matcher_call_fst: "fst (Matcher_call po m p) = (bestIndex (snd (Matcher_call po m p)) = 0)"
  by (simp add: Matcher_call_def Let_def)

lemma Matcher_call_hint: "m_hint (snd (Matcher_call po m p)) = m_hint m"
  using Matcher_loop_cases [of "filename po p" p m] by (auto simp: Matcher_call_snd)

lemma Matcher_call_le: "bestIndex (snd (Matcher_call po m p)) \<le> bestIndex m"
  using Matcher_loop_cases [of "filename po p" p m] by (auto simp: Matcher_call_snd)

lemma Matcher_inv_init: "Matcher_inv po {} (Matcher h)"
  by (simp add: Matcher_inv_def Matcher_def)

lemma Matcher_inv_call:
  assumes "Matcher_inv po seen m"
  shows "Matcher_inv po (insert p seen) (snd (Matcher_call po m p))"
  using Matcher_loop_cases [of "filename po p" p m] assms
  by (auto simp: Matcher_call_snd Matcher_inv_def)

lemma Matcher_feed_snoc:
  "Matcher_feed po m (ps @ [p]) = snd (Matcher_call po (Matcher_feed po m ps) p)"
  by (induction ps arbitrary: m) simp_all

lemma Matcher_feed_hint: "m_hint (Matcher_feed po m ps) = m_hint m"
  by (induction ps arbitrary: m) (simp_all add: Matcher_call_hint)

lemma Matcher_inv_feed:
  "Matcher_inv po seen m \<Longrightarrow> Matcher_inv po (seen \<union> set ps) (Matcher_feed po m ps)"
proof (induction ps arbitrary: m seen)
  case Nil
  then show ?case by simp
next
  case (Cons p ps)
  from Matcher_inv_call [OF Cons.prems]
  have "Matcher_inv po (insert p seen) (snd (Matcher_call po m p))" .
  from Cons.IH [OF this] show ?case by simp
qed

lemma Matcher_feed_bound: "bestIndex (Matcher_feed po (Matcher h) ps) \<le> length h"
proof -
  have "Matcher_inv po ({} \<union> set ps) (Matcher_feed po (Matcher h) ps)"
    by (rule Matcher_inv_feed) (rule Matcher_inv_init)
  then show ?thesis
    by (simp add: Matcher_inv_def Matcher_feed_hint Matcher_def)
qed

text \<open>
  Claim C3. One call of the matcher, in a state whose \<open>bestIndex\<close> is within the candidate
  list: when \<open>i\<close> is the least index below \<open>bestIndex\<close> whose candidate equals the path's
  filename, the call sets \<open>bestIndex\<close> to \<open>i\<close> and \<open>bestMatch\<close> to the path; when no
  candidate below \<open>bestIndex\<close> equals it, the state is unchanged; the call returns true
  exactly when \<open>bestIndex\<close> is 0 afterwards. With the candidates \<open>config.json\<close>,
  \<open>CONFIG.JSON\<close> and the first observed path \<open>sub/config.json\<close>, the state becomes
  index 0 with that path and the call returns true.
\<close>

theorem matcher_call_first_match:
  assumes "bestIndex m \<le> length (m_hint m)"
  shows "(\<forall>i. i < bestIndex m \<and> m_hint m ! i = filename po p \<and>
            (\<forall>j<i. m_hint m ! j \<noteq> filename po p) \<longrightarrow>
          snd (Matcher_call po m p) = m\<lparr>bestIndex := i, bestMatch := p\<rparr>) \<and>
     ((\<forall>i<bestIndex m. m_hint m ! i \<noteq> filename po p) \<longrightarrow> snd (Matcher_call po m p) = m) \<and>
     (fst (Matcher_call po m p) \<longleftrightarrow> bestIndex (snd (Matcher_call po m p)) = 0) \<and>
     bestIndex (snd (Matcher_call po m p)) \<le> length (m_hint (snd (Matcher_call po m p))) \<and>
     Matcher_call simple_path_ops (Matcher [''config.json'', ''CONFIG.JSON'']) ''sub/config.json'' =
       (True, \<lparr> m_hint = [''config.json'', ''CONFIG.JSON''], bestIndex = 0,
                bestMatch = ''sub/config.json'' \<rparr>)"
proof -
  have a: "snd (Matcher_call po m p) = m\<lparr>bestIndex := i, bestMatch := p\<rparr>"
    if "i < bestIndex m" "m_hint m ! i = filename po p" "\<forall>j<i. m_hint m ! j \<noteq> filename po p"
    for i
    using that by (simp add: Matcher_call_snd Matcher_loop_match)
  have b: "snd (Matcher_call po m p) = m" if "\<forall>i<bestIndex m. m_hint m ! i \<noteq> filename po p"
    using that by (simp add: Matcher_call_snd Matcher_loop_nomatch)
  have c: "fst (Matcher_call po m p) \<longleftrightarrow> bestIndex (snd (Matcher_call po m p)) = 0"
    by (rule Matcher_call_fst)
  have d: "bestIndex (snd (Matcher_call po m p)) \<le> length (m_hint (snd (Matcher_call po m p)))"
    using Matcher_call_le [of po m p] assms by (simp add: Matcher_call_hint)
  have e: "Matcher_call simple_path_ops (Matcher [''config.json'', ''CONFIG.JSON'']) ''sub/config.json'' =
       (True, \<lparr> m_hint = [''config.json'', ''CONFIG.JSON''], bestIndex = 0,
                bestMatch = ''sub/config.json'' \<rparr>)"
    by (simp add: simple_path_ops_def path_elems_def Matcher_call_def Matcher_def
        Matcher_loop.simps Let_def)
  from a b c d e show ?thesis by blast
qed

text \<open>
  A matcher that holds \<open>top/CONFIG.JSON\<close> at index 1 and is then given a path that
  matches index 0, or a path that matches nothing.
\<close>

theorem matcher_call_first_match_witness:
  "Matcher_call simple_path_ops
     \<lparr> m_hint = [''config.json'', ''CONFIG.JSON''], bestIndex = 1, bestMatch = ''top/CONFIG.JSON'' \<rparr>
     ''sub/config.json'' =
     (True, \<lparr> m_hint = [''config.json'', ''CONFIG.JSON''], bestIndex = 0,
              bestMatch = ''sub/config.json'' \<rparr>) \<and>
   Matcher_call simple_path_ops
     \<lparr> m_hint = [''config.json'', ''CONFIG.JSON''], bestIndex = 1, bestMatch = ''top/CONFIG.JSON'' \<rparr>
     ''sub/other.txt'' =
     (False, \<lparr> m_hint = [''config.json'', ''CONFIG.JSON''], bestIndex = 1,
               bestMatch = ''top/CONFIG.JSON'' \<rparr>)"
proof -
  let ?m = "\<lparr> m_hint = [''config.json'', ''CONFIG.JSON''], bestIndex = 1,
             bestMatch = ''top/CONFIG.JSON'' \<rparr>"
  have h: "bestIndex ?m \<le> length (m_hint ?m)" by simp
  have e: "filename simple_path_ops ''sub/config.json'' = ''config.json''"
    "filename simple_path_ops ''sub/other.txt'' = ''other.txt''"
    by (simp_all add: simple_path_ops_def path_elems_def)
  from matcher_call_first_match [OF h, of simple_path_ops "''sub/config.json''"]
  have "snd (Matcher_call simple_path_ops ?m ''sub/config.json'') =
          ?m\<lparr>bestIndex := 0, bestMatch := ''sub/config.json''\<rparr> \<and>
        fst (Matcher_call simple_path_ops ?m ''sub/config.json'')"
    by (simp add: e)
  then have a: "Matcher_call simple_path_ops ?m ''sub/config.json'' =
      (True, ?m\<lparr>bestIndex := 0, bestMatch := ''sub/config.json''\<rparr>)"
    by (simp add: prod_eq_iff)
  from matcher_call_first_match [OF h, of simple_path_ops "''sub/other.txt''"]
  have "snd (Matcher_call simple_path_ops ?m ''sub/other.txt'') = ?m \<and>
        \<not> fst (Matcher_call simple_path_ops ?m ''sub/other.txt'')"
    by (simp add: e)
  then have b: "Matcher_call simple_path_ops ?m ''sub/other.txt'' = (False, ?m)"
    by (simp add: prod_eq_iff)
  from a b show ?thesis by simp
qed

text \<open>
  Claim C10. For a matcher built from the candidates \<open>h\<close> and fed the paths \<open>ps\<close> and then
  \<open>p\<close>: the call on \<open>p\<close> does not raise \<open>bestIndex\<close>; \<open>bestIndex\<close> stays within the
  length of \<open>h\<close>; whenever it is below that length, \<open>bestMatch\<close> is one of the paths fed
  and its filename is the candidate at \<open>bestIndex\<close>; and a path whose filename equals no
  candidate below \<open>bestIndex\<close> leaves the whole state, \<open>bestMatch\<close> included, as it was.
\<close>

theorem matcher_feed_invariant:
  "bestIndex (Matcher_feed po (Matcher h) (ps @ [p])) \<le> bestIndex (Matcher_feed po (Matcher h) ps) \<and>
   bestIndex (Matcher_feed po (Matcher h) ps) \<le> length h \<and>
   m_hint (Matcher_feed po (Matcher h) ps) = h \<and>
   (bestIndex (Matcher_feed po (Matcher h) ps) < length h \<longrightarrow>
      bestMatch (Matcher_feed po (Matcher h) ps) \<in> set ps \<and>
      filename po (bestMatch (Matcher_feed po (Matcher h) ps)) =
        h ! bestIndex (Matcher_feed po (Matcher h) ps)) \<and>
   ((\<forall>i<bestIndex (Matcher_feed po (Matcher h) ps). h ! i \<noteq> filename po p) \<longrightarrow>
      Matcher_feed po (Matcher h) (ps @ [p]) = Matcher_feed po (Matcher h) ps)"
proof -
  let ?m = "Matcher_feed po (Matcher h) ps"
  have hint: "m_hint ?m = h"
    by (simp add: Matcher_feed_hint Matcher_def)
  have step: "Matcher_feed po (Matcher h) (ps @ [p]) = snd (Matcher_call po ?m p)"
    by (rule Matcher_feed_snoc)
  have mono: "bestIndex (Matcher_feed po (Matcher h) (ps @ [p])) \<le> bestIndex ?m"
    by (simp only: step Matcher_call_le)
  have "Matcher_inv po ({} \<union> set ps) ?m"
    by (rule Matcher_inv_feed) (rule Matcher_inv_init)
  then have inv: "bestIndex ?m \<le> length h \<and>
      (bestIndex ?m < length h \<longrightarrow>
         bestMatch ?m \<in> set ps \<and> filename po (bestMatch ?m) = h ! bestIndex ?m)"
    by (simp add: Matcher_inv_def hint)
  have keep: "Matcher_feed po (Matcher h) (ps @ [p]) = ?m"
    if "\<forall>i<bestIndex ?m. h ! i \<noteq> filename po p"
    using that by (simp add: step Matcher_call_snd Matcher_loop_nomatch hint)
  from mono inv hint keep show ?thesis by blast
qed

text \<open>
  After \<open>top/CONFIG.JSON\<close> and \<open>sub/config.json\<close> the match is the latter at index 0,
  and \<open>etc/CONFIG.JSON\<close>, which matches index 1 only, changes nothing.
\<close>

theorem matcher_feed_invariant_witness:
  "Matcher_feed simple_path_ops (Matcher [''config.json'', ''CONFIG.JSON''])
     ([''top/CONFIG.JSON''] @ [''sub/config.json'']) =
     \<lparr> m_hint = [''config.json'', ''CONFIG.JSON''], bestIndex = 0,
       bestMatch = ''sub/config.json'' \<rparr> \<and>
   Matcher_feed simple_path_ops (Matcher [''config.json'', ''CONFIG.JSON''])
     ([''top/CONFIG.JSON'', ''sub/config.json''] @ [''etc/CONFIG.JSON'']) =
   Matcher_feed simple_path_ops (Matcher [''config.json'', ''CONFIG.JSON''])
     [''top/CONFIG.JSON'', ''sub/config.json'']"
proof -
  let ?h = "[''config.json'', ''CONFIG.JSON'']"
  have e: "filename simple_path_ops ''sub/config.json'' = ''config.json''"
    "filename simple_path_ops ''top/CONFIG.JSON'' = ''CONFIG.JSON''"
    "filename simple_path_ops ''etc/CONFIG.JSON'' = ''CONFIG.JSON''"
    by (simp_all add: simple_path_ops_def path_elems_def)
  have a: "Matcher_feed simple_path_ops (Matcher ?h) [''top/CONFIG.JSON'', ''sub/config.json''] =
      \<lparr> m_hint = ?h, bestIndex = 0, bestMatch = ''sub/config.json'' \<rparr>"
    by (simp add: Matcher_call_def Matcher_def Matcher_loop.simps Let_def e)
  let ?seen = "Matcher_feed simple_path_ops (Matcher ?h) [''top/CONFIG.JSON'', ''sub/config.json'']"
  from matcher_feed_invariant
    [of simple_path_ops ?h "[''top/CONFIG.JSON'', ''sub/config.json'']" "''etc/CONFIG.JSON''"]
  have keep: "(\<forall>i<bestIndex ?seen. ?h ! i \<noteq> filename simple_path_ops ''etc/CONFIG.JSON'') \<longrightarrow>
    Matcher_feed simple_path_ops (Matcher ?h)
      ([''top/CONFIG.JSON'', ''sub/config.json''] @ [''etc/CONFIG.JSON'']) = ?seen"
    by blast
  have "bestIndex ?seen = 0" by (simp only: a) simp
  with keep have b: "Matcher_feed simple_path_ops (Matcher ?h)
      ([''top/CONFIG.JSON'', ''sub/config.json''] @ [''etc/CONFIG.JSON'']) = ?seen"
    by simp
  from a have "Matcher_feed simple_path_ops (Matcher ?h)
     ([''top/CONFIG.JSON''] @ [''sub/config.json'']) =
     \<lparr> m_hint = ?h, bestIndex = 0, bestMatch = ''sub/config.json'' \<rparr>"
    by simp
  with b show ?thesis by blast
qed


subsection \<open>Opening an archive\<close>

lemma str_find_first:
  "c \<in> set s \<Longrightarrow>
   \<exists>n. str_find s c = Some n \<and> s = take n s @ c # drop (n + 1) s \<and> c \<notin> set (take n s)"
proof (induction s)
  case Nil
  then show ?case by simp
next
  case (Cons x xs)
  show ?case
  proof (cases "x = c")
    case True
    then show ?thesis by simp
  next
    case False
    with Cons.prems have "c \<in> set xs" by simp
    from Cons.IH [OF this] obtain n where
      n: "str_find xs c = Some n" "xs = take n xs @ c # drop (n + 1) xs" "c \<notin> set (take n xs)"
      by blast
    from n(2) have "x # xs = take (Suc n) (x # xs) @ c # drop (Suc n + 1) (x # xs)"
      by simp
    moreover from n(3) False have "c \<notin> set (take (Suc n) (x # xs))" by simp
    moreover from n(1) False have "str_find (x # xs) c = Some (Suc n)" by simp
    ultimately show ?thesis by blast
  qed
qed

lemma str_find_none: "c \<notin> set s \<Longrightarrow> str_find s c = None"
  by (induction s) auto

lemma url_mime_hint: "hint (url_mime env p oo) = hint oo"
  by (simp add: url_mime_def split: option.splits)

lemma dispatch_backend:
  "dispatch env magic p oo = Inr b \<Longrightarrow> backend_path b = p \<and> backend_options b = oo"
  by (auto simp: dispatch_def split: if_splits)

lemma factory_after_split:
  "inline_hint_split p oo = (p1, oo1) \<Longrightarrow>
   factory env p oo =
     (case detect_magic env p1 (url_mime env p1 oo1) of
        Inl e \<Rightarrow> Inl e
      | Inr magic \<Rightarrow> dispatch env magic p1 (url_mime env p1 oo1))"
  by (simp add: factory_def Let_def)

text \<open>
  Claim C4. When a marker is configured and occurs in the path string, the string is
  the real path, then the marker, then the new hint, with no marker in the real path
  (the split is at the first occurrence); \<^verbatim>\<open>factory\<close> goes on with the real path and
  with options whose hint is the suffix alone, whatever hint they held, and the backend
  it constructs receives that path and that hint. The string
  \<open>archive.tar#inner/hint.file\<close> with the marker \<open>#\<close> splits into \<open>archive.tar\<close> and
  \<open>inner/hint.file\<close>.
\<close>

theorem inline_hint_first_marker:
  "(inlineHint oo \<noteq> CHR 0x00 \<and> inlineHint oo \<in> set str \<longrightarrow>
      (\<exists>pre suf. str = pre @ inlineHint oo # suf \<and> inlineHint oo \<notin> set pre \<and>
         inline_hint_split str oo = (pre, oo\<lparr>hint := [suf]\<rparr>) \<and>
         factory env str oo =
           (case detect_magic env pre (url_mime env pre (oo\<lparr>hint := [suf]\<rparr>)) of
              Inl e \<Rightarrow> Inl e
            | Inr magic \<Rightarrow> dispatch env magic pre (url_mime env pre (oo\<lparr>hint := [suf]\<rparr>))) \<and>
         (\<forall>b. factory env str oo = Inr b \<longrightarrow>
            backend_path b = pre \<and> hint (backend_options b) = [suf]))) \<and>
   inline_hint_split ''archive.tar#inner/hint.file''
     \<lparr> hint = h0, mime = mt, inlineHint = CHR ''#'', fileLimit = lim \<rparr> =
     (''archive.tar'',
      \<lparr> hint = [''inner/hint.file''], mime = mt, inlineHint = CHR ''#'', fileLimit = lim \<rparr>)"
  (is "(?marked \<longrightarrow> ?split) \<and> ?example")
proof (intro conjI impI)
  assume a: ?marked
  let ?c = "inlineHint oo"
  from a str_find_first [of ?c str] obtain n where
    n: "str_find str ?c = Some n" "str = take n str @ ?c # drop (n + 1) str"
       "?c \<notin> set (take n str)"
    by blast
  let ?pre = "take n str" and ?suf = "drop (n + 1) str"
  let ?oo = "oo\<lparr>hint := [?suf]\<rparr>"
  from a n(1) have sp: "inline_hint_split str oo = (?pre, ?oo)"
    by (simp add: inline_hint_split_def)
  note fa = factory_after_split [OF sp, of env]
  have be: "backend_path b = ?pre \<and> hint (backend_options b) = [?suf]"
    if "factory env str oo = Inr b" for b
  proof -
    from that fa obtain magic where
      "dispatch env magic ?pre (url_mime env ?pre ?oo) = Inr b"
      by (auto split: sum.splits)
    from dispatch_backend [OF this] show ?thesis
      by (simp add: url_mime_hint)
  qed
  from n(2) n(3) sp fa be show ?split by blast
next
  show ?example by (simp add: inline_hint_split_def)
qed

text \<open>
  The same string opened where the content sniffing detects a tar archive: the tar
  backend gets \<open>archive.tar\<close> and the hint \<open>inner/hint.file\<close> in place of the one
  given in the options.
\<close>

theorem inline_hint_first_marker_witness:
  "factory \<lparr> uri_scheme = (\<lambda>u. None), magic_mime = (\<lambda>p. Inr ''application/x-tar''),
             has_http = False \<rparr>
     ''archive.tar#inner/hint.file''
     \<lparr> hint = [''other.file''], mime = [], inlineHint = CHR ''#'', fileLimit = 0 \<rparr> =
   Inr (TarballBackend ''archive.tar''
     \<lparr> hint = [''inner/hint.file''], mime = [], inlineHint = CHR ''#'', fileLimit = 0 \<rparr>)"
proof -
  let ?env = "\<lparr> uri_scheme = (\<lambda>u. None), magic_mime = (\<lambda>p. Inr ''application/x-tar''),
             has_http = False \<rparr>"
  let ?oo = "\<lparr> hint = [''other.file''], mime = [], inlineHint = CHR ''#'', fileLimit = 0 \<rparr>"
  let ?str = "''archive.tar#inner/hint.file''"
  have h: "inlineHint ?oo \<noteq> CHR 0x00 \<and> inlineHint ?oo \<in> set ?str" by simp
  have sp: "inline_hint_split ?str ?oo = (''archive.tar'', ?oo\<lparr>hint := [''inner/hint.file'']\<rparr>)"
    by (simp add: inline_hint_split_def)
  from inline_hint_first_marker [where oo = ?oo and str = ?str and env = ?env] h obtain pre suf where
    ps: "inline_hint_split ?str ?oo = (pre, ?oo\<lparr>hint := [suf]\<rparr>)"
    and fa: "factory ?env ?str ?oo =
           (case detect_magic ?env pre (url_mime ?env pre (?oo\<lparr>hint := [suf]\<rparr>)) of
              Inl e \<Rightarrow> Inl e
            | Inr magic \<Rightarrow> dispatch ?env magic pre (url_mime ?env pre (?oo\<lparr>hint := [suf]\<rparr>)))"
    by blast
  from ps sp have "pre = ''archive.tar''" and "suf = ''inner/hint.file''"
    by simp_all
  with fa show ?thesis
    by (simp add: detect_magic_def url_mime_def dispatch_def)
qed

text \<open>
  Claim C7. When the type token that \<^verbatim>\<open>factory\<close> resolves (the given type, \<open>http\<close> for
  a URL, or the detected type) is none of \<open>inode/directory\<close>, \<open>application/x-tar\<close>,
  \<open>application/zip\<close> and \<open>http\<close>, it throws \<^verbatim>\<open>NotAnArchive\<close> with a message that
  contains the token; a path detected as \<open>text/plain\<close> fails with the message
  \<open>Unsupported archive type <text/plain>.\<close>
\<close>

theorem unknown_type_not_an_archive:
  "((case inline_hint_split p oo of
       (p1, oo1) \<Rightarrow> detect_magic env p1 (url_mime env p1 oo1)) = Inr magic \<and>
    magic \<notin> {''inode/directory'', ''application/x-tar'', ''application/zip'', ''http''} \<longrightarrow>
      factory env p oo = Inl (NotAnArchive (''Unsupported archive type <'' @ magic @ ''>.'')) \<and>
      sublist magic (''Unsupported archive type <'' @ magic @ ''>.'')) \<and>
   (inlineHint oo = CHR 0x00 \<and> mime oo = [] \<and> uri_scheme env p = None \<and>
    magic_mime env p = Inr ''text/plain'' \<longrightarrow>
      factory env p oo = Inl (NotAnArchive ''Unsupported archive type <text/plain>.''))"
  (is "(?unknown \<longrightarrow> ?fails) \<and> (?plain \<longrightarrow> ?fails_plain)")
proof (intro conjI impI)
  assume u: ?unknown
  obtain p1 oo1 where sp: "inline_hint_split p oo = (p1, oo1)"
    by (cases "inline_hint_split p oo")
  with u have dm: "detect_magic env p1 (url_mime env p1 oo1) = Inr magic" by simp
  from u have "dispatch env magic p1 (url_mime env p1 oo1) =
      Inl (NotAnArchive (''Unsupported archive type <'' @ magic @ ''>.''))"
    by (simp add: dispatch_def)
  with dm factory_after_split [OF sp, of env]
  show "factory env p oo = Inl (NotAnArchive (''Unsupported archive type <'' @ magic @ ''>.''))"
    by simp
  show "sublist magic (''Unsupported archive type <'' @ magic @ ''>.'')"
    by (rule sublist_mid)
next
  assume ?plain
  then show ?fails_plain
    by (simp add: factory_def inline_hint_split_def url_mime_def detect_magic_def dispatch_def)
qed

text \<open>A file that the content sniffing detects as \<open>text/plain\<close>.\<close>

theorem unknown_type_not_an_archive_witness:
  "factory \<lparr> uri_scheme = (\<lambda>u. None), magic_mime = (\<lambda>p. Inr ''text/plain''),
             has_http = True \<rparr>
     ''notes.txt''
     \<lparr> hint = [], mime = [], inlineHint = CHR ''#'', fileLimit = 0 \<rparr> =
   Inl (NotAnArchive ''Unsupported archive type <text/plain>.'')"
proof -
  let ?env = "\<lparr> uri_scheme = (\<lambda>u. None), magic_mime = (\<lambda>p. Inr ''text/plain''),
             has_http = True \<rparr>"
  let ?oo = "\<lparr> hint = [], mime = [], inlineHint = CHR ''#'', fileLimit = 0 \<rparr>"
  have h: "(case inline_hint_split ''notes.txt'' ?oo of
       (p1, oo1) \<Rightarrow> detect_magic ?env p1 (url_mime ?env p1 oo1)) = Inr ''text/plain'' \<and>
    ''text/plain'' \<notin> {''inode/directory'', ''application/x-tar'', ''application/zip'', ''http''}"
    by (simp add: inline_hint_split_def detect_magic_def url_mime_def)
  from unknown_type_not_an_archive
    [where p = "''notes.txt''" and oo = ?oo and env = ?env and magic = "''text/plain''"] h
  show ?thesis by simp
qed

subsection \<open>Reading a whole member\<close>

text \<open>
  Claim C2. The order of the strategies of \<^verbatim>\<open>IStream::read\<close>: a known size \<open>n\<close> decides
  alone, whatever \<open>seekable\<close> says, and the result is the \<open>n\<close> bytes at the read position,
  or a failure when fewer are left; without a size, a seekable stream is measured and
  rewound, and the result is the whole source wherever the position was; otherwise the
  result is what is left from the position on. On a stream at its start that reports no
  size or its exact size, all three return exactly the bytes of the source.
\<close>

theorem read_whole_content:
  "(known_size s = Some n \<longrightarrow>
      IStream_read s =
        (if pos s + n \<le> length (src s)
         then Inr (take n (drop (pos s) (src s)), s\<lparr>pos := pos s + n\<rparr>)
         else Inl IOError)) \<and>
   (known_size s = None \<and> seekable s \<longrightarrow>
      IStream_read s = Inr (src s, s\<lparr>pos := length (src s)\<rparr>)) \<and>
   (known_size s = None \<and> \<not> seekable s \<longrightarrow>
      IStream_read s = Inr (drop (pos s) (src s), s\<lparr>pos := length (src s)\<rparr>)) \<and>
   (pos s = 0 \<and> (known_size s = None \<or> known_size s = Some (length (src s))) \<longrightarrow>
      IStream_read s = Inr (src s, s\<lparr>pos := length (src s)\<rparr>))"
proof (intro conjI impI)
  assume "known_size s = Some n"
  then show "IStream_read s =
        (if pos s + n \<le> length (src s)
         then Inr (take n (drop (pos s) (src s)), s\<lparr>pos := pos s + n\<rparr>)
         else Inl IOError)"
    by (simp add: IStream_read_def binaryio_read_def)
next
  assume "known_size s = None \<and> seekable s"
  then show "IStream_read s = Inr (src s, s\<lparr>pos := length (src s)\<rparr>)"
    by (simp add: IStream_read_def binaryio_read_def seekg_end_def tellg_def seekg_def)
next
  assume "known_size s = None \<and> \<not> seekable s"
  then show "IStream_read s = Inr (drop (pos s) (src s), s\<lparr>pos := length (src s)\<rparr>)"
    by (simp add: IStream_read_def bio_copy_def)
next
  assume "pos s = 0 \<and> (known_size s = None \<or> known_size s = Some (length (src s)))"
  then show "IStream_read s = Inr (src s, s\<lparr>pos := length (src s)\<rparr>)"
    by (auto simp: IStream_read_def binaryio_read_def seekg_end_def tellg_def seekg_def
        bio_copy_def)
qed

text \<open>The source \<open>member\<close> read under each of the three strategies.\<close>

theorem read_whole_content_witness:
  "IStream_read \<lparr> src = ''member'', pos = 0, known_size = Some 6, seekable = False \<rparr> =
     Inr (''member'', \<lparr> src = ''member'', pos = 6, known_size = Some 6, seekable = False \<rparr>) \<and>
   IStream_read \<lparr> src = ''member'', pos = 0, known_size = None, seekable = True \<rparr> =
     Inr (''member'', \<lparr> src = ''member'', pos = 6, known_size = None, seekable = True \<rparr>) \<and>
   IStream_read \<lparr> src = ''member'', pos = 0, known_size = None, seekable = False \<rparr> =
     Inr (''member'', \<lparr> src = ''member'', pos = 6, known_size = None, seekable = False \<rparr>)"
  using read_whole_content
      [of "\<lparr> src = ''member'', pos = 0, known_size = Some 6, seekable = False \<rparr>" 6]
    read_whole_content
      [of "\<lparr> src = ''member'', pos = 0, known_size = None, seekable = True \<rparr>" 0]
    read_whole_content
      [of "\<lparr> src = ''member'', pos = 0, known_size = None, seekable = False \<rparr>" 0]
  by simp

end
